theory Spec2Isabelle
  imports Main
begin

section \<open>Data model\<close>

text \<open>
  A \<open>TreeNode\<close> of the tree component. Only the fields the state engine reads are kept:
  \<open>id\<close>, the optional \<open>children\<close> array and the optional \<open>disabled\<close> flag.  The flag is
  only ever read through its truthiness (\<open>if (node.disabled)\<close>, \<open>node.disabled || false\<close>),
  so an absent flag is \<open>False\<close>.  The display fields (\<open>name\<close>, \<open>data\<close>, \<open>loading\<close>,
  \<open>icon\<close>, \<open>iconOpen\<close>, \<open>badge\<close>) are never read by the functions below.
\<close>

datatype TreeNode =
  TreeNode (node_id: string) (children: "TreeNode list option") (disabled: bool)

text \<open>\<open>node.children || []\<close>\<close>

definition childrenOrEmpty :: "TreeNode \<Rightarrow> TreeNode list" where
  "childrenOrEmpty n = (case children n of Some ch \<Rightarrow> ch | None \<Rightarrow> [])"

text \<open>\<open>Boolean(node.children && node.children.length > 0)\<close>\<close>

definition hasChildren :: "TreeNode \<Rightarrow> bool" where
  "hasChildren n = (case children n of Some ch \<Rightarrow> length ch > 0 | None \<Rightarrow> False)"

section \<open>Helper functions of the checked-state engine\<close>

fun getAllDescendantIds :: "TreeNode list \<Rightarrow> string list" where
  "getAllDescendantIds [] = []"
| "getAllDescendantIds (TreeNode i cs d # rest) =
     (i # (case cs of
             Some ch \<Rightarrow> if length ch > 0 then getAllDescendantIds ch else []
           | None \<Rightarrow> [])) @ getAllDescendantIds rest"

fun getLeafNodeIds :: "TreeNode list \<Rightarrow> string list" where
  "getLeafNodeIds [] = []"
| "getLeafNodeIds (TreeNode i cs d # rest) =
     (case cs of
        None \<Rightarrow> [i]
      | Some ch \<Rightarrow> if length ch = 0 then [i] else getLeafNodeIds ch) @ getLeafNodeIds rest"

text \<open>
  \<open>updateParentCheckStates\<close> mutates the set it is given; the model returns the updated
  set.  The loop over \<open>nodes\<close> threads the set from one node to the next.
\<close>

fun updateParentCheckStates :: "TreeNode list \<Rightarrow> string set \<Rightarrow> string set" where
  "updateParentCheckStates [] checkedSet = checkedSet"
| "updateParentCheckStates (TreeNode i cs d # rest) checkedSet =
     updateParentCheckStates rest
       (case cs of
          None \<Rightarrow> checkedSet
        | Some ch \<Rightarrow>
            if length ch > 0 then
              (let s1 = updateParentCheckStates ch checkedSet;
                   leafIds = getLeafNodeIds ch;
                   allLeavesChecked = list_all (\<lambda>l. l \<in> s1) leafIds
               in if allLeavesChecked then insert i s1 else s1 - {i})
            else checkedSet)"

section \<open>The Tree component: derived lookup structures\<close>

text \<open>
  What a handler does to the outside world: the callbacks it invokes and the state setters
  it calls, in order.  \<open>Array.from(set)\<close> hands the callback the members of the set; the
  model passes the set itself.  \<open>Focus i\<close> stands for \<open>element.focus()\<close> on the element
  registered for \<open>i\<close> followed by \<open>setLastFocusedNodeId(i)\<close>.
\<close>

datatype effect =
    OnExpandedChange "string set"
  | SetInternalExpanded "string set"
  | OnCheckedNodesChange "string set"
  | OnNodeSelect string
  | Focus string

text \<open>
  The value of \<open>TreeContext\<close>.  Optional callbacks are recorded by whether they were
  supplied; \<open>focusableNodes\<close> is the set of ids that currently have a registered element.
  The display-only members (\<open>renderItem\<close>, \<open>variant\<close>, \<open>showLines\<close>) are left out.
\<close>

record TreeContextValue =
  selectedNode :: "string option"
  onNodeSelect :: bool
  expandedNodes :: "string set"
  onToggleNode :: "string \<Rightarrow> effect list"
  checkedNodes :: "string set option"
  onCheckedNodesChange :: bool
  enableBulkActions :: bool
  disableSelection :: bool
  focusableNodes :: "string set"
  visibleNodeIds :: "string list"
  disabledNodesMap :: "string \<rightharpoonup> bool"
  parentNodeMap :: "string \<rightharpoonup> string"
  lastFocusedNodeId :: "string option"
  data :: "TreeNode list"

text \<open>The props of \<open>Tree\<close> that reach the state engine, and the state its hooks hold.\<close>

record TreeProps =
  prop_data :: "TreeNode list"
  prop_selectedNode :: "string option"
  prop_onNodeSelect :: bool
  prop_expanded :: "string list option"
  prop_onExpandedChange :: bool
  prop_checkedNodes :: "string list option"
  prop_onCheckedNodesChange :: bool
  prop_enableBulkActions :: bool
  prop_disableSelection :: bool

record TreeState =
  st_internalExpanded :: "string set"
  st_focusableNodes :: "string set"
  st_lastFocusedNodeId :: "string option"

text \<open>JavaScript truthiness of a \<open>string | null | undefined\<close> value.\<close>

definition truthy :: "string option \<Rightarrow> bool" where
  "truthy v = (case v of None \<Rightarrow> False | Some s \<Rightarrow> s \<noteq> [])"

text \<open>\<open>handleToggleNode\<close>, given the current \<open>expandedNodes\<close> and whether the \<open>expanded\<close>
  prop and the \<open>onExpandedChange\<close> callback were supplied.\<close>

definition handleToggleNode :: "string set \<Rightarrow> bool \<Rightarrow> bool \<Rightarrow> string \<Rightarrow> effect list" where
  "handleToggleNode expandedNodes' expandedSupplied onExpandedChangeSupplied nodeId =
     (let newExpanded =
            (if nodeId \<in> expandedNodes' then expandedNodes' - {nodeId}
             else insert nodeId expandedNodes')
      in if expandedSupplied \<and> onExpandedChangeSupplied then [OnExpandedChange newExpanded]
         else [SetInternalExpanded newExpanded])"

fun buildParentMap ::
  "TreeNode list \<Rightarrow> string option \<Rightarrow> (string \<rightharpoonup> string) \<Rightarrow> (string \<rightharpoonup> string)" where
  "buildParentMap [] parentId parentMap = parentMap"
| "buildParentMap (TreeNode i cs d # rest) parentId parentMap =
     buildParentMap rest parentId
       (case cs of
          None \<Rightarrow> (if truthy parentId then parentMap(i := parentId) else parentMap)
        | Some ch \<Rightarrow>
            buildParentMap ch (Some i)
              (if truthy parentId then parentMap(i := parentId) else parentMap))"

text \<open>
  \<open>collectVisibleIds\<close> appends to the array \<open>ids\<close> and writes into \<open>disabledMap\<close>; the model
  threads both through the traversal.
\<close>

fun collectVisibleIds ::
  "string set \<Rightarrow> TreeNode list \<Rightarrow> string list \<times> (string \<rightharpoonup> bool)
     \<Rightarrow> string list \<times> (string \<rightharpoonup> bool)" where
  "collectVisibleIds expandedNodes' [] acc = acc"
| "collectVisibleIds expandedNodes' (TreeNode i cs d # rest) (ids, disabledMap) =
     collectVisibleIds expandedNodes' rest
       (case cs of
          None \<Rightarrow> (ids @ [i], if d then disabledMap(i \<mapsto> True) else disabledMap)
        | Some ch \<Rightarrow>
            if i \<in> expandedNodes' then
              collectVisibleIds expandedNodes' ch
                (ids @ [i], if d then disabledMap(i \<mapsto> True) else disabledMap)
            else (ids @ [i], if d then disabledMap(i \<mapsto> True) else disabledMap))"

definition computeVisible ::
  "TreeNode list \<Rightarrow> string set \<Rightarrow> string list \<times> (string \<rightharpoonup> bool)" where
  "computeVisible data' expandedNodes' = collectVisibleIds expandedNodes' data' ([], Map.empty)"

text \<open>The body of \<open>Tree\<close>: the context value it provides to its items.\<close>

definition Tree :: "TreeProps \<Rightarrow> TreeState \<Rightarrow> TreeContextValue" where
  "Tree props st =
     (let expandedNodes' =
            (case prop_expanded props of
               Some xs \<Rightarrow> set xs
             | None \<Rightarrow> st_internalExpanded st);
          checkedNodesSet = map_option set (prop_checkedNodes props);
          vis = computeVisible (prop_data props) expandedNodes'
      in \<lparr> selectedNode = prop_selectedNode props,
           onNodeSelect = prop_onNodeSelect props,
           expandedNodes = expandedNodes',
           onToggleNode =
             handleToggleNode expandedNodes' (prop_expanded props \<noteq> None)
               (prop_onExpandedChange props),
           checkedNodes = checkedNodesSet,
           onCheckedNodesChange = prop_onCheckedNodesChange props,
           enableBulkActions = prop_enableBulkActions props,
           disableSelection = prop_disableSelection props,
           focusableNodes = st_focusableNodes st,
           visibleNodeIds = fst vis,
           disabledNodesMap = snd vis,
           parentNodeMap = buildParentMap (prop_data props) None Map.empty,
           lastFocusedNodeId = st_lastFocusedNodeId st,
           data = prop_data props \<rparr>)"

text \<open>
  \<open>useTreeContext\<close>: reading the context outside a \<open>Tree\<close> throws; the thrown message is
  the left summand.
\<close>

definition useTreeContext :: "TreeContextValue option \<Rightarrow> string + TreeContextValue" where
  "useTreeContext context =
     (case context of
        None \<Rightarrow> Inl ''Tree components must be used within a Tree''
      | Some c \<Rightarrow> Inr c)"

section \<open>TreeItemInternal: derived flags and handlers\<close>

definition isExpanded :: "TreeContextValue \<Rightarrow> TreeNode \<Rightarrow> bool" where
  "isExpanded context node = (node_id node \<in> expandedNodes context)"

definition isDisabled :: "TreeNode \<Rightarrow> bool" where
  "isDisabled node = disabled node"

definition isChecked :: "TreeContextValue \<Rightarrow> TreeNode \<Rightarrow> bool" where
  "isChecked context node =
     (case checkedNodes context of
        Some cn \<Rightarrow> if enableBulkActions context then node_id node \<in> cn else False
      | None \<Rightarrow> False)"

definition isFirstNode :: "TreeContextValue \<Rightarrow> TreeNode \<Rightarrow> bool" where
  "isFirstNode context node =
     (case visibleNodeIds context of [] \<Rightarrow> False | first # _ \<Rightarrow> first = node_id node)"

definition isLastFocused :: "TreeContextValue \<Rightarrow> TreeNode \<Rightarrow> bool" where
  "isLastFocused context node = (lastFocusedNodeId context = Some (node_id node))"

definition isTabbable :: "TreeContextValue \<Rightarrow> TreeNode \<Rightarrow> bool" where
  "isTabbable context node =
     (isLastFocused context node
        \<or> (\<not> truthy (lastFocusedNodeId context) \<and> isFirstNode context node))"

definition tabIndex :: "TreeContextValue \<Rightarrow> TreeNode \<Rightarrow> int" where
  "tabIndex context node =
     (if isDisabled node then - 1 else if isTabbable context node then 0 else - 1)"

definition handleToggleChecked :: "TreeContextValue \<Rightarrow> TreeNode \<Rightarrow> effect list" where
  "handleToggleChecked context node =
     (case checkedNodes context of
        None \<Rightarrow> []
      | Some cn \<Rightarrow>
          if \<not> onCheckedNodesChange context then []
          else
            (let allDescendantIds =
                   (if hasChildren node then getAllDescendantIds (childrenOrEmpty node)
                    else []);
                 currentSet =
                   (if isChecked context node
                    then fold (\<lambda>i s. s - {i}) allDescendantIds (cn - {node_id node})
                    else fold insert allDescendantIds (insert (node_id node) cn))
             in [OnCheckedNodesChange (updateParentCheckStates (data context) currentSet)]))"

text \<open>\<open>handleLocalCheckboxChange\<close> of \<open>useTreeCheckboxState\<close>, global-reconciliation version.\<close>

definition handleLocalCheckboxChange ::
  "TreeContextValue \<Rightarrow> TreeNode \<Rightarrow> string list \<Rightarrow> effect list" where
  "handleLocalCheckboxChange context node newValues =
     (case checkedNodes context of
        None \<Rightarrow> []
      | Some cn \<Rightarrow>
          if \<not> onCheckedNodesChange context then []
          else
            (let allDescendantIds =
                   (if hasChildren node then getAllDescendantIds (childrenOrEmpty node)
                    else []);
                 currentSet = fold insert newValues (fold (\<lambda>i s. s - {i}) allDescendantIds cn)
             in [OnCheckedNodesChange (updateParentCheckStates (data context) currentSet)]))"

text \<open>
  \<open>handleLocalCheckboxChange\<close> of the second tree implementation, which has no
  \<open>updateParentCheckStates\<close>: it sets the membership of the node itself by comparing the
  number of reported values with the number of its leaf descendants.  Its context is a
  smaller record; the handler reads only \<open>checkedNodes\<close> and \<open>onCheckedNodesChange\<close>, which
  both contexts have.
\<close>

definition handleLocalCheckboxChange_local ::
  "TreeContextValue \<Rightarrow> TreeNode \<Rightarrow> string list \<Rightarrow> effect list" where
  "handleLocalCheckboxChange_local context node newValues =
     (case checkedNodes context of
        None \<Rightarrow> []
      | Some cn \<Rightarrow>
          if \<not> onCheckedNodesChange context then []
          else
            (let allDescendantIds =
                   (if hasChildren node then getAllDescendantIds (childrenOrEmpty node)
                    else []);
                 allLeafIds =
                   (if hasChildren node then getLeafNodeIds (childrenOrEmpty node) else []);
                 currentSet = fold insert newValues (fold (\<lambda>i s. s - {i}) allDescendantIds cn)
             in [OnCheckedNodesChange
                   (if length newValues = length allLeafIds
                    then insert (node_id node) currentSet
                    else currentSet - {node_id node})]))"



text \<open>\<open>Array.prototype.indexOf\<close>: the first index of the value, or \<open>-1\<close>.\<close>

fun indexOf :: "string list \<Rightarrow> string \<Rightarrow> int" where
  "indexOf [] x = - 1"
| "indexOf (y # ys) x =
     (if y = x then 0 else if indexOf ys x = - 1 then - 1 else indexOf ys x + 1)"

text \<open>
  The scanning loops of the navigation keys.  The \<open>while\<close> loop of \<open>ArrowDown\<close> and the
  \<open>for\<close> loop of \<open>Home\<close> have the same body and step and differ in the start index only, as
  do the loops of \<open>ArrowUp\<close> and \<open>End\<close>.  An index outside the array reads \<open>undefined\<close>,
  which is in neither map, so the loop steps over it.
\<close>

function scanForward :: "TreeContextValue \<Rightarrow> int \<Rightarrow> effect list" where
  "scanForward context nextIndex =
     (if nextIndex < int (length (visibleNodeIds context)) then
        (if nextIndex < 0 then scanForward context (nextIndex + 1)
         else if disabledNodesMap context (visibleNodeIds context ! nat nextIndex) \<noteq> None
           then scanForward context (nextIndex + 1)
         else if visibleNodeIds context ! nat nextIndex \<in> focusableNodes context
           then [Focus (visibleNodeIds context ! nat nextIndex)]
         else scanForward context (nextIndex + 1))
      else [])"
  by pat_completeness auto
termination
  by (relation "measure (\<lambda>(c, i). nat (int (length (visibleNodeIds c)) - i))") auto

function scanBackward :: "TreeContextValue \<Rightarrow> int \<Rightarrow> effect list" where
  "scanBackward context prevIndex =
     (if prevIndex \<ge> 0 then
        (if prevIndex \<ge> int (length (visibleNodeIds context))
           then scanBackward context (prevIndex - 1)
         else if disabledNodesMap context (visibleNodeIds context ! nat prevIndex) \<noteq> None
           then scanBackward context (prevIndex - 1)
         else if visibleNodeIds context ! nat prevIndex \<in> focusableNodes context
           then [Focus (visibleNodeIds context ! nat prevIndex)]
         else scanBackward context (prevIndex - 1))
      else [])"
  by pat_completeness auto
termination
  by (relation "measure (\<lambda>(c, i). nat (i + 1))") auto

definition handleKeyDown :: "TreeContextValue \<Rightarrow> TreeNode \<Rightarrow> string \<Rightarrow> effect list" where
  "handleKeyDown context node key =
     (if isDisabled node then []
      else
        (let currentIndex = indexOf (visibleNodeIds context) (node_id node) in
         if key = '' '' then
           (if enableBulkActions context then handleToggleChecked context node
            else (if hasChildren node then onToggleNode context (node_id node) else [])
               @ (if \<not> disableSelection context \<and> onNodeSelect context
                  then [OnNodeSelect (node_id node)] else []))
         else if key = ''Enter'' then
           (if enableBulkActions context then
              (if hasChildren node then onToggleNode context (node_id node)
               else handleToggleChecked context node)
            else (if hasChildren node then onToggleNode context (node_id node) else [])
               @ (if \<not> disableSelection context \<and> onNodeSelect context
                  then [OnNodeSelect (node_id node)] else []))
         else if key = ''ArrowRight'' then
           (if hasChildren node \<and> \<not> isExpanded context node
            then onToggleNode context (node_id node) else [])
         else if key = ''ArrowLeft'' then
           (if hasChildren node \<and> isExpanded context node
            then onToggleNode context (node_id node)
            else
              (case parentNodeMap context (node_id node) of
                 None \<Rightarrow> []
               | Some parentId \<Rightarrow>
                   if parentId \<noteq> [] \<and> parentId \<in> focusableNodes context
                   then [Focus parentId] else []))
         else if key = ''ArrowDown'' then scanForward context (currentIndex + 1)
         else if key = ''ArrowUp'' then scanBackward context (currentIndex - 1)
         else if key = ''Home'' then scanForward context 0
         else if key = ''End'' then
           scanBackward context (int (length (visibleNodeIds context)) - 1)
         else []))"

text \<open>
  A \<open>TreeItemInternal\<close> first reads the context with \<open>useTreeContext\<close> and then builds its
  handlers from it, so invoking a handler of an item is the composition below.
\<close>

definition itemToggleChecked :: "TreeContextValue option \<Rightarrow> TreeNode \<Rightarrow> string + effect list" where
  "itemToggleChecked context node =
     (case useTreeContext context of
        Inl err \<Rightarrow> Inl err
      | Inr c \<Rightarrow> Inr (handleToggleChecked c node))"

definition itemLocalCheckboxChange ::
  "TreeContextValue option \<Rightarrow> TreeNode \<Rightarrow> string list \<Rightarrow> string + effect list" where
  "itemLocalCheckboxChange context node newValues =
     (case useTreeContext context of
        Inl err \<Rightarrow> Inl err
      | Inr c \<Rightarrow> Inr (handleLocalCheckboxChange c node newValues))"

section \<open>Vocabulary of the properties\<close>

text \<open>Every node of a forest, in depth-first pre-order.\<close>

fun allNodes :: "TreeNode list \<Rightarrow> TreeNode list" where
  "allNodes [] = []"
| "allNodes (TreeNode i cs d # rest) =
     (TreeNode i cs d # (case cs of Some ch \<Rightarrow> allNodes ch | None \<Rightarrow> [])) @ allNodes rest"

text \<open>
  The ids of a tree are unique when the pre-order list of all its ids has no repetition
  (\<open>getAllDescendantIds\<close> applied to the roots lists every id of the tree).
\<close>

definition uniqueIds :: "TreeNode list \<Rightarrow> bool" where
  "uniqueIds nodes = distinct (getAllDescendantIds nodes)"

text \<open>
  Propagation consistency of a checked set: every parent of the tree is a member exactly
  when all its leaf descendants are.
\<close>

definition parentConsistent :: "string set \<Rightarrow> TreeNode \<Rightarrow> bool" where
  "parentConsistent S n =
     (hasChildren n \<longrightarrow>
        (node_id n \<in> S \<longleftrightarrow> list_all (\<lambda>l. l \<in> S) (getLeafNodeIds (childrenOrEmpty n))))"

definition consistent :: "TreeNode list \<Rightarrow> string set \<Rightarrow> bool" where
  "consistent nodes S = list_all (parentConsistent S) (allNodes nodes)"

definition parentIds :: "TreeNode list \<Rightarrow> string list" where
  "parentIds nodes = map node_id (filter hasChildren (allNodes nodes))"

text \<open>
  One step of the checked-state engine on a tree: some item handler
  (\<open>handleToggleChecked\<close> on a node, or \<open>handleLocalCheckboxChange\<close> on a node with the
  values its checkbox group reports) runs in a context that holds the tree and the current
  checked set \<open>S\<close>, and commits \<open>S'\<close> through \<open>onCheckedNodesChange\<close>.
\<close>

inductive checkedStep :: "TreeNode list \<Rightarrow> string set \<Rightarrow> string set \<Rightarrow> bool"
  for tree :: "TreeNode list" where
  toggle:
    "data context = tree \<Longrightarrow> checkedNodes context = Some S \<Longrightarrow>
     handleToggleChecked context node = [OnCheckedNodesChange S'] \<Longrightarrow>
     checkedStep tree S S'"
| localChange:
    "data context = tree \<Longrightarrow> checkedNodes context = Some S \<Longrightarrow>
     handleLocalCheckboxChange context node newValues = [OnCheckedNodesChange S'] \<Longrightarrow>
     checkedStep tree S S'"

text \<open>
  Every node of a forest paired with the ids of its ancestors (outermost first), in
  depth-first pre-order.  A node is visible under an expanded set when all its ancestors
  are expanded.
\<close>

fun withAncestors :: "string list \<Rightarrow> TreeNode list \<Rightarrow> (TreeNode \<times> string list) list" where
  "withAncestors anc [] = []"
| "withAncestors anc (TreeNode i cs d # rest) =
     ((TreeNode i cs d, anc)
        # (case cs of Some ch \<Rightarrow> withAncestors (anc @ [i]) ch | None \<Rightarrow> []))
       @ withAncestors anc rest"

definition ancestorsExpanded :: "string set \<Rightarrow> TreeNode \<times> string list \<Rightarrow> bool" where
  "ancestorsExpanded E p = list_all (\<lambda>a. a \<in> E) (snd p)"

definition visibleNodes :: "string set \<Rightarrow> TreeNode list \<Rightarrow> TreeNode list" where
  "visibleNodes E nodes = map fst (filter (ancestorsExpanded E) (withAncestors [] nodes))"

text \<open>What visiting a node does to \<open>disabledMap\<close>.\<close>

definition markDisabled :: "TreeNode \<Rightarrow> (string \<rightharpoonup> bool) \<Rightarrow> (string \<rightharpoonup> bool)" where
  "markDisabled n m = (if disabled n then m(node_id n \<mapsto> True) else m)"

text \<open>The visible nodes that carry \<open>tabIndex\<close> 0, in visible order.\<close>

definition focusTargets :: "TreeContextValue \<Rightarrow> TreeNode list" where
  "focusTargets context =
     filter (\<lambda>n. tabIndex context n = 0) (visibleNodes (expandedNodes context) (data context))"

text \<open>
  The node the roving-tabindex code designates: the visible node whose id is
  \<open>lastFocusedNodeId\<close> when that is set, the first visible node when it is not.
\<close>

definition designatedNode :: "TreeContextValue \<Rightarrow> TreeNode option" where
  "designatedNode context =
     (case lastFocusedNodeId context of
        Some f \<Rightarrow>
          find (\<lambda>n. node_id n = f) (visibleNodes (expandedNodes context) (data context))
      | None \<Rightarrow>
          (case visibleNodes (expandedNodes context) (data context) of
             [] \<Rightarrow> None
           | n # _ \<Rightarrow> Some n))"

text \<open>The first visible node that is not disabled, if there is one.\<close>

definition firstEnabledVisible :: "TreeContextValue \<Rightarrow> TreeNode option" where
  "firstEnabledVisible context =
     find (\<lambda>n. \<not> disabled n) (visibleNodes (expandedNodes context) (data context))"

text \<open>
  The ids a navigation key scans, in scan order: after the current node for \<open>ArrowDown\<close>,
  before it (nearest first) for \<open>ArrowUp\<close>, the whole sequence for \<open>Home\<close> and, reversed,
  for \<open>End\<close>.
\<close>

definition scanRange :: "TreeContextValue \<Rightarrow> TreeNode \<Rightarrow> string \<Rightarrow> string list" where
  "scanRange context node key =
     (if key = ''ArrowDown'' then
        drop (nat (indexOf (visibleNodeIds context) (node_id node) + 1)) (visibleNodeIds context)
      else if key = ''ArrowUp'' then
        rev (take (nat (indexOf (visibleNodeIds context) (node_id node))) (visibleNodeIds context))
      else if key = ''Home'' then visibleNodeIds context
      else if key = ''End'' then rev (visibleNodeIds context)
      else [])"

definition flipMember :: "string \<Rightarrow> string set \<Rightarrow> string set" where
  "flipMember i S = (if i \<in> S then S - {i} else insert i S)"

text \<open>
  An id a navigation scan may stop at: not a key of \<open>disabledNodesMap\<close> and with a
  registered element.  \<open>focusFirst\<close> focuses the first such id of a sequence, if any.
\<close>

definition eligible :: "TreeContextValue \<Rightarrow> string \<Rightarrow> bool" where
  "eligible c x = (disabledNodesMap c x = None \<and> x \<in> focusableNodes c)"

definition focusFirst :: "TreeContextValue \<Rightarrow> string list \<Rightarrow> effect list" where
  "focusFirst c xs = (case find (eligible c) xs of None \<Rightarrow> [] | Some x \<Rightarrow> [Focus x])"





section \<open>Example trees\<close>

text \<open>\<open>root{leafA, leafB}\<close>\<close>

definition leafA :: TreeNode where "leafA = TreeNode ''leafA'' None False"
definition leafB :: TreeNode where "leafB = TreeNode ''leafB'' None False"
definition rootAB :: TreeNode where "rootAB = TreeNode ''root'' (Some [leafA, leafB]) False"

text \<open>
  Props and hook state of a tree in bulk-actions mode with a checked set, all callbacks
  supplied, nothing expanded, nothing focused yet, and an element registered for every id.
\<close>

definition bulkProps :: "TreeNode list \<Rightarrow> string list \<Rightarrow> TreeProps" where
  "bulkProps tree checked =
     \<lparr> prop_data = tree, prop_selectedNode = None, prop_onNodeSelect = True,
       prop_expanded = None, prop_onExpandedChange = True,
       prop_checkedNodes = Some checked, prop_onCheckedNodesChange = True,
       prop_enableBulkActions = True, prop_disableSelection = False \<rparr>"

definition idleState :: "TreeNode list \<Rightarrow> TreeState" where
  "idleState tree =
     \<lparr> st_internalExpanded = {}, st_focusableNodes = set (getAllDescendantIds tree),
       st_lastFocusedNodeId = None \<rparr>"

definition bulkContext :: "TreeNode list \<Rightarrow> string list \<Rightarrow> TreeContextValue" where
  "bulkContext tree checked = Tree (bulkProps tree checked) (idleState tree)"

text \<open>\<open>p{c}\<close> with \<open>c\<close> disabled, and the roots \<open>a\<close> (disabled), \<open>b\<close>.\<close>

definition hiddenDisabledTree :: "TreeNode list" where
  "hiddenDisabledTree = [TreeNode ''p'' (Some [TreeNode ''c'' None True]) False]"

definition disabledFirstTree :: "TreeNode list" where
  "disabledFirstTree = [TreeNode ''a'' None True, TreeNode ''b'' None False]"

text \<open>The roots \<open>a\<close>, \<open>leafC\<close> with \<open>leafC\<close> disabled and last.\<close>

definition skipTree :: "TreeNode list" where
  "skipTree = [TreeNode ''a'' None False, TreeNode ''leafC'' None True]"

text \<open>\<open>root{mid{x, y}, z}\<close>\<close>

definition nestedRoot :: TreeNode where
  "nestedRoot =
     TreeNode ''root''
       (Some [TreeNode ''mid'' (Some [TreeNode ''x'' None False, TreeNode ''y'' None False]) False,
              TreeNode ''z'' None False]) False"

text \<open>The bulk-actions context of \<open>root{leafA, leafB}\<close> without \<open>onCheckedNodesChange\<close>.\<close>

definition noCallbackContext :: TreeContextValue where
  "noCallbackContext =
     Tree ((bulkProps [rootAB] []) \<lparr> prop_onCheckedNodesChange := False \<rparr>) (idleState [rootAB])"


text \<open>A node that is not in \<open>root{leafA, leafB}\<close>.\<close>

definition ghost :: TreeNode where "ghost = TreeNode ''ghost'' None False"

text \<open>The hook state after a node with the empty id received focus.\<close>

definition emptyIdFocused :: "TreeNode list \<Rightarrow> TreeState" where
  "emptyIdFocused tree = (idleState tree) \<lparr> st_lastFocusedNodeId := Some [] \<rparr>"

definition emptyIdTree :: "TreeNode list" where
  "emptyIdTree = [TreeNode ''a'' None False, TreeNode [] None False]"

section \<open>Traversal lemmas\<close>

lemma forest_induct [case_names Nil Cons]:
  assumes "P []"
    and "\<And>n rest. P (childrenOrEmpty n) \<Longrightarrow> P rest \<Longrightarrow> P (n # rest)"
  shows "P nodes"
proof (induction nodes rule: getLeafNodeIds.induct)
  case 1
  show ?case by (rule assms(1))
next
  case (2 i cs d rest)
  have "P (childrenOrEmpty (TreeNode i cs d))"
  proof (cases cs)
    case None
    then show ?thesis by (simp add: childrenOrEmpty_def assms(1))
  next
    case (Some ch)
    show ?thesis
    proof (cases "length ch = 0")
      case True
      with Some show ?thesis by (simp add: childrenOrEmpty_def assms(1))
    next
      case False
      with Some "2.IH"(1) show ?thesis by (simp add: childrenOrEmpty_def)
    qed
  qed
  then show ?case using "2.IH"(2) by (rule assms(2))
qed

lemma hasChildren_iff: "hasChildren n \<longleftrightarrow> childrenOrEmpty n \<noteq> []"
  by (cases n) (auto simp: hasChildren_def childrenOrEmpty_def split: option.splits)

lemma getAllDescendantIds_Cons:
  "getAllDescendantIds (n # rest) =
     node_id n # getAllDescendantIds (childrenOrEmpty n) @ getAllDescendantIds rest"
  by (cases n) (auto simp: childrenOrEmpty_def split: option.splits)

lemma getLeafNodeIds_Cons:
  "getLeafNodeIds (n # rest) =
     (if hasChildren n then getLeafNodeIds (childrenOrEmpty n) else [node_id n])
       @ getLeafNodeIds rest"
  by (cases n) (auto simp: childrenOrEmpty_def hasChildren_def split: option.splits)

lemma allNodes_Cons:
  "allNodes (n # rest) = n # allNodes (childrenOrEmpty n) @ allNodes rest"
  by (cases n) (auto simp: childrenOrEmpty_def split: option.splits)

lemma updateParentCheckStates_Cons:
  "updateParentCheckStates (n # rest) S =
     updateParentCheckStates rest
       (if hasChildren n then
          (if list_all (\<lambda>l. l \<in> updateParentCheckStates (childrenOrEmpty n) S)
                (getLeafNodeIds (childrenOrEmpty n))
           then insert (node_id n) (updateParentCheckStates (childrenOrEmpty n) S)
           else updateParentCheckStates (childrenOrEmpty n) S - {node_id n})
        else S)"
  by (cases n) (auto simp: childrenOrEmpty_def hasChildren_def Let_def split: option.splits)

declare getAllDescendantIds.simps(2) [simp del] getLeafNodeIds.simps(2) [simp del]
  allNodes.simps(2) [simp del] updateParentCheckStates.simps(2) [simp del]

lemma ids_allNodes: "getAllDescendantIds nodes = map node_id (allNodes nodes)"
  by (induction nodes rule: forest_induct)
     (simp_all add: getAllDescendantIds_Cons allNodes_Cons)

lemma leafIds_allNodes:
  "getLeafNodeIds nodes = map node_id (filter (\<lambda>n. \<not> hasChildren n) (allNodes nodes))"
proof (induction nodes rule: forest_induct)
  case Nil
  show ?case by simp
next
  case (Cons n rest)
  show ?case
  proof (cases "hasChildren n")
    case True
    with Cons show ?thesis by (simp add: getLeafNodeIds_Cons allNodes_Cons)
  next
    case False
    then have "childrenOrEmpty n = []" by (simp add: hasChildren_iff)
    with False Cons show ?thesis by (simp add: getLeafNodeIds_Cons allNodes_Cons)
  qed
qed

lemma parentIds_subset: "set (parentIds nodes) \<subseteq> set (getAllDescendantIds nodes)"
  by (auto simp: parentIds_def ids_allNodes)

lemma leafIds_subset: "set (getLeafNodeIds nodes) \<subseteq> set (getAllDescendantIds nodes)"
  by (auto simp: leafIds_allNodes ids_allNodes)

lemma parentIds_Cons:
  "set (parentIds (n # rest)) =
     (if hasChildren n then {node_id n} else {}) \<union> set (parentIds (childrenOrEmpty n))
       \<union> set (parentIds rest)"
  by (auto simp: parentIds_def allNodes_Cons)

lemma update_frame:
  "x \<notin> set (parentIds nodes) \<Longrightarrow> x \<in> updateParentCheckStates nodes S \<longleftrightarrow> x \<in> S"
proof (induction nodes arbitrary: S rule: forest_induct)
  case Nil
  show ?case by simp
next
  case (Cons n rest)
  from Cons.prems have r: "x \<notin> set (parentIds rest)"
    and c: "x \<notin> set (parentIds (childrenOrEmpty n))"
    and h: "hasChildren n \<Longrightarrow> x \<noteq> node_id n"
    by (auto simp: parentIds_Cons split: if_splits)
  show ?case
    using Cons.IH(1)[OF c, of S] Cons.IH(2)[OF r] h
    by (auto simp: updateParentCheckStates_Cons)
qed

lemma leaf_not_parent:
  assumes "distinct (getAllDescendantIds nodes)" "l \<in> set (getLeafNodeIds nodes)"
  shows "l \<notin> set (parentIds nodes)"
proof -
  from assms(1) have inj: "inj_on node_id (set (allNodes nodes))"
    by (simp add: ids_allNodes distinct_map)
  show ?thesis using assms(2) inj
    by (auto simp: leafIds_allNodes parentIds_def dest: inj_onD)
qed


lemma consistent_Nil: "consistent [] S"
  by (simp add: consistent_def)

lemma consistent_Cons:
  "consistent (n # rest) S \<longleftrightarrow>
     parentConsistent S n \<and> consistent (childrenOrEmpty n) S \<and> consistent rest S"
  by (simp add: consistent_def allNodes_Cons)

lemma parentConsistent_cong:
  assumes "\<And>x. x \<in> set (getAllDescendantIds [n]) \<Longrightarrow> x \<in> S \<longleftrightarrow> x \<in> S'"
  shows "parentConsistent S n = parentConsistent S' n"
proof -
  have a: "node_id n \<in> S \<longleftrightarrow> node_id n \<in> S'"
    using assms by (simp add: getAllDescendantIds_Cons)
  have "\<And>l. l \<in> set (getLeafNodeIds (childrenOrEmpty n)) \<Longrightarrow> l \<in> S \<longleftrightarrow> l \<in> S'"
    using assms leafIds_subset [of "childrenOrEmpty n"]
    by (auto simp: getAllDescendantIds_Cons)
  then have b: "list_all (\<lambda>l. l \<in> S) (getLeafNodeIds (childrenOrEmpty n))
      = list_all (\<lambda>l. l \<in> S') (getLeafNodeIds (childrenOrEmpty n))"
    by (auto simp: list_all_iff)
  show ?thesis by (simp add: parentConsistent_def a b)
qed

lemma consistent_cong:
  "(\<And>x. x \<in> set (getAllDescendantIds nodes) \<Longrightarrow> x \<in> S \<longleftrightarrow> x \<in> S') \<Longrightarrow>
     consistent nodes S = consistent nodes S'"
proof (induction nodes rule: forest_induct)
  case Nil
  show ?case by (simp add: consistent_Nil)
next
  case (Cons n rest)
  have 1: "parentConsistent S n = parentConsistent S' n"
    by (rule parentConsistent_cong) (use Cons.prems in \<open>auto simp: getAllDescendantIds_Cons\<close>)
  have 2: "consistent (childrenOrEmpty n) S = consistent (childrenOrEmpty n) S'"
    by (rule Cons.IH(1)) (use Cons.prems in \<open>auto simp: getAllDescendantIds_Cons\<close>)
  have 3: "consistent rest S = consistent rest S'"
    by (rule Cons.IH(2)) (use Cons.prems in \<open>auto simp: getAllDescendantIds_Cons\<close>)
  show ?case by (simp add: consistent_Cons 1 2 3)
qed

lemma update_consistent:
  "distinct (getAllDescendantIds nodes) \<Longrightarrow> consistent nodes (updateParentCheckStates nodes S)"
proof (induction nodes arbitrary: S rule: forest_induct)
  case Nil
  show ?case by (simp add: consistent_Nil)
next
  case (Cons n rest)
  define ch where "ch = childrenOrEmpty n"
  define s1 where "s1 = updateParentCheckStates ch S"
  define s2 where "s2 = (if hasChildren n then
          (if list_all (\<lambda>l. l \<in> s1) (getLeafNodeIds ch)
           then insert (node_id n) s1 else s1 - {node_id n})
        else S)"
  define R where "R = updateParentCheckStates rest s2"
  have R: "updateParentCheckStates (n # rest) S = R"
    by (simp add: updateParentCheckStates_Cons R_def s2_def s1_def ch_def)
  from Cons.prems have dch: "distinct (getAllDescendantIds ch)"
    and drest: "distinct (getAllDescendantIds rest)"
    and n_ch: "node_id n \<notin> set (getAllDescendantIds ch)"
    and n_rest: "node_id n \<notin> set (getAllDescendantIds rest)"
    and disj: "set (getAllDescendantIds ch) \<inter> set (getAllDescendantIds rest) = {}"
    by (auto simp: getAllDescendantIds_Cons ch_def)
  have frameR: "x \<in> R \<longleftrightarrow> x \<in> s2" if "x \<notin> set (getAllDescendantIds rest)" for x
    unfolding R_def using that parentIds_subset [of rest] by (intro update_frame) blast
  have s2_s1: "x \<in> s2 \<longleftrightarrow> x \<in> s1" if "x \<in> set (getAllDescendantIds ch)" for x
  proof (cases "hasChildren n")
    case True
    from that n_ch have "x \<noteq> node_id n" by blast
    with True show ?thesis by (simp add: s2_def)
  next
    case False
    then have "ch = []" by (simp add: hasChildren_iff ch_def)
    with that show ?thesis by simp
  qed
  have R_s1: "x \<in> R \<longleftrightarrow> x \<in> s1" if "x \<in> set (getAllDescendantIds ch)" for x
    using that frameR [of x] s2_s1 [of x] disj by blast
  have c_rest: "consistent rest R"
    unfolding R_def by (rule Cons.IH(2) [OF drest])
  have "consistent ch s1"
    unfolding s1_def ch_def by (rule Cons.IH(1) [OF dch [unfolded ch_def]])
  then have c_ch: "consistent ch R"
    using consistent_cong [of ch R s1] R_s1 by blast
  have c_n: "parentConsistent R n"
  proof (cases "hasChildren n")
    case False
    then show ?thesis by (simp add: parentConsistent_def)
  next
    case True
    have "\<And>l. l \<in> set (getLeafNodeIds ch) \<Longrightarrow> l \<in> R \<longleftrightarrow> l \<in> s1"
      using R_s1 leafIds_subset [of ch] by blast
    then have leaves: "list_all (\<lambda>l. l \<in> R) (getLeafNodeIds ch)
        = list_all (\<lambda>l. l \<in> s1) (getLeafNodeIds ch)"
      unfolding list_all_iff by blast
    have "node_id n \<in> R \<longleftrightarrow> node_id n \<in> s2"
      by (rule frameR [OF n_rest])
    also have "\<dots> \<longleftrightarrow> list_all (\<lambda>l. l \<in> s1) (getLeafNodeIds ch)"
      using True by (simp add: s2_def)
    finally show ?thesis
      using True leaves by (simp add: parentConsistent_def ch_def)
  qed
  show ?case
    unfolding R using c_n c_ch c_rest by (simp add: consistent_Cons ch_def)
qed

lemma consistent_update_id:
  "consistent nodes S \<Longrightarrow> updateParentCheckStates nodes S = S"
proof (induction nodes arbitrary: S rule: forest_induct)
  case Nil
  show ?case by simp
next
  case (Cons n rest)
  from Cons.prems have pc: "parentConsistent S n"
    and cc: "consistent (childrenOrEmpty n) S" and cr: "consistent rest S"
    by (simp_all add: consistent_Cons)
  have 1: "updateParentCheckStates (childrenOrEmpty n) S = S"
    by (rule Cons.IH(1) [OF cc])
  have 2: "updateParentCheckStates rest S = S"
    by (rule Cons.IH(2) [OF cr])
  have 3: "(if hasChildren n then
          (if list_all (\<lambda>l. l \<in> S) (getLeafNodeIds (childrenOrEmpty n))
           then insert (node_id n) S else S - {node_id n})
        else S) = S"
    using pc by (auto simp: parentConsistent_def)
  show ?case
    by (simp only: updateParentCheckStates_Cons 1 3 2)
qed

section \<open>The context built by Tree\<close>

lemma Tree_fields:
  "data (Tree props st) = prop_data props"
  "selectedNode (Tree props st) = prop_selectedNode props"
  "onNodeSelect (Tree props st) = prop_onNodeSelect props"
  "checkedNodes (Tree props st) = map_option set (prop_checkedNodes props)"
  "onCheckedNodesChange (Tree props st) = prop_onCheckedNodesChange props"
  "enableBulkActions (Tree props st) = prop_enableBulkActions props"
  "disableSelection (Tree props st) = prop_disableSelection props"
  "focusableNodes (Tree props st) = st_focusableNodes st"
  "lastFocusedNodeId (Tree props st) = st_lastFocusedNodeId st"
  "expandedNodes (Tree props st) =
     (case prop_expanded props of Some xs \<Rightarrow> set xs | None \<Rightarrow> st_internalExpanded st)"
  "visibleNodeIds (Tree props st) = fst (computeVisible (prop_data props) (expandedNodes (Tree props st)))"
  "disabledNodesMap (Tree props st) = snd (computeVisible (prop_data props) (expandedNodes (Tree props st)))"
  "onToggleNode (Tree props st) =
     handleToggleNode (expandedNodes (Tree props st)) (prop_expanded props \<noteq> None)
       (prop_onExpandedChange props)"
  by (simp_all add: Tree_def Let_def)

lemma bulkContext_fields:
  "data (bulkContext tree checked) = tree"
  "checkedNodes (bulkContext tree checked) = Some (set checked)"
  "onCheckedNodesChange (bulkContext tree checked)"
  "enableBulkActions (bulkContext tree checked)"
  "expandedNodes (bulkContext tree checked) = {}"
  "lastFocusedNodeId (bulkContext tree checked) = None"
  by (simp_all add: bulkContext_def bulkProps_def idleState_def Tree_fields)

section \<open>Checked-state handlers\<close>

lemma handleToggleChecked_commits:
  "handleToggleChecked context node = [OnCheckedNodesChange S'] \<Longrightarrow>
     \<exists>X. S' = updateParentCheckStates (data context) X"
  by (auto simp: handleToggleChecked_def Let_def split: option.splits if_splits)

lemma handleLocalCheckboxChange_commits:
  "handleLocalCheckboxChange context node newValues = [OnCheckedNodesChange S'] \<Longrightarrow>
     \<exists>X. S' = updateParentCheckStates (data context) X"
  by (auto simp: handleLocalCheckboxChange_def Let_def split: option.splits if_splits)

lemma checkedStep_reconciled:
  "checkedStep tree S S' \<Longrightarrow> \<exists>X. S' = updateParentCheckStates tree X"
  by (induction rule: checkedStep.induct)
     (auto dest: handleToggleChecked_commits handleLocalCheckboxChange_commits)

lemma checkedStep_tranclp_reconciled:
  "tranclp (checkedStep tree) S0 S \<Longrightarrow> \<exists>X. S = updateParentCheckStates tree X"
  by (erule tranclp.cases) (auto dest: checkedStep_reconciled)

lemma consistentD:
  "consistent tree S \<Longrightarrow> n \<in> set (allNodes tree) \<Longrightarrow> hasChildren n \<Longrightarrow>
     node_id n \<in> S \<longleftrightarrow> (\<forall>l \<in> set (getLeafNodeIds (childrenOrEmpty n)). l \<in> S)"
  by (auto simp: consistent_def parentConsistent_def list_all_iff)

lemma fold_insert_set: "fold insert xs S = set xs \<union> S"
  by (induction xs arbitrary: S) auto

lemma fold_remove_set: "fold (\<lambda>i s. s - {i}) xs S = S - set xs"
  by (induction xs arbitrary: S) auto

text \<open>
  C1.  Propagation consistency.  On a tree whose ids are unique (the data model requires
  it), every checked set committed after one or more checked-state operations, starting
  from any checked set, has each parent as a member exactly when all leaf descendants of
  that parent are members.
\<close>

theorem propagation_consistency:
  assumes "uniqueIds tree"
    and "tranclp (checkedStep tree) S0 S"
    and "n \<in> set (allNodes tree)"
    and "hasChildren n"
  shows "node_id n \<in> S \<longleftrightarrow> (\<forall>l \<in> set (getLeafNodeIds (childrenOrEmpty n)). l \<in> S)"
proof -
  from assms(2) obtain X where "S = updateParentCheckStates tree X"
    using checkedStep_tranclp_reconciled by blast
  with assms(1) have "consistent tree S"
    by (simp add: uniqueIds_def update_consistent)
  then show ?thesis using assms(3,4) by (rule consistentD)
qed

lemma rootAB_shape:
  "hasChildren rootAB" "childrenOrEmpty rootAB = [leafA, leafB]" "node_id rootAB = ''root''"
  "\<not> hasChildren leafA" "childrenOrEmpty leafA = []" "node_id leafA = ''leafA''"
  "\<not> hasChildren leafB" "childrenOrEmpty leafB = []" "node_id leafB = ''leafB''"
  by (simp_all add: hasChildren_def childrenOrEmpty_def rootAB_def leafA_def leafB_def)

lemma rootAB_ids: "getAllDescendantIds [rootAB] = [''root'', ''leafA'', ''leafB'']"
  by (simp add: getAllDescendantIds_Cons rootAB_shape)

lemma rootAB_update:
  "updateParentCheckStates [rootAB] S =
     (if ''leafA'' \<in> S \<and> ''leafB'' \<in> S then insert ''root'' S else S - {''root''})"
  by (simp add: updateParentCheckStates_Cons getLeafNodeIds_Cons rootAB_shape)

lemma rootAB_toggle:
  "handleToggleChecked (bulkContext [rootAB] []) rootAB
     = [OnCheckedNodesChange {''root'', ''leafA'', ''leafB''}]"
proof -
  have "fold insert [''leafA'', ''leafB''] (insert ''root'' {}) = {''root'', ''leafA'', ''leafB''}"
    by auto
  then show ?thesis
    by (simp add: handleToggleChecked_def bulkContext_fields isChecked_def rootAB_shape
        getAllDescendantIds_Cons rootAB_update)
qed

theorem propagation_consistency_witness:
  "uniqueIds [rootAB] \<and> tranclp (checkedStep [rootAB]) {} {''root'', ''leafA'', ''leafB''}
     \<and> rootAB \<in> set (allNodes [rootAB]) \<and> hasChildren rootAB
     \<and> (node_id rootAB \<in> {''root'', ''leafA'', ''leafB''} \<longleftrightarrow>
          (\<forall>l \<in> set (getLeafNodeIds (childrenOrEmpty rootAB)).
              l \<in> {''root'', ''leafA'', ''leafB''}))"
proof -
  have u: "uniqueIds [rootAB]"
    by (simp add: uniqueIds_def rootAB_ids)
  have d: "data (bulkContext [rootAB] []) = [rootAB]"
    by (simp add: bulkContext_fields)
  have c: "checkedNodes (bulkContext [rootAB] []) = Some {}"
    by (simp add: bulkContext_fields)
  have "checkedStep [rootAB] {} {''root'', ''leafA'', ''leafB''}"
    by (rule checkedStep.toggle [OF d c rootAB_toggle])
  then have r: "tranclp (checkedStep [rootAB]) {} {''root'', ''leafA'', ''leafB''}"
    by (rule tranclp.r_into_trancl)
  have m: "rootAB \<in> set (allNodes [rootAB])"
    by (simp add: allNodes_Cons)
  have h: "hasChildren rootAB"
    by (simp add: hasChildren_def rootAB_def)
  show ?thesis
    by (intro conjI u r m h propagation_consistency [OF u r m h])
qed

text \<open>
  C9.  Idempotence of global reconciliation.  On a tree whose ids are unique, running
  \<open>updateParentCheckStates\<close> on its own result gives that result again.
\<close>

theorem reconcile_idempotent:
  "uniqueIds tree \<Longrightarrow>
     updateParentCheckStates tree (updateParentCheckStates tree S)
       = updateParentCheckStates tree S"
  by (simp add: uniqueIds_def consistent_update_id update_consistent)

theorem reconcile_idempotent_witness:
  "uniqueIds [rootAB] \<and>
     updateParentCheckStates [rootAB] (updateParentCheckStates [rootAB] {''leafA'', ''root''})
       = updateParentCheckStates [rootAB] {''leafA'', ''root''}"
proof -
  have u: "uniqueIds [rootAB]"
    by (simp add: uniqueIds_def rootAB_ids)
  show ?thesis by (intro conjI u reconcile_idempotent [OF u])
qed

text \<open>
  C10.  Global reconciliation changes the membership of parent ids only.  On a tree
  whose ids are unique, the id of every leaf node (no \<open>children\<close>, or an empty \<open>children\<close>
  list) is in the checked set after \<open>updateParentCheckStates\<close> exactly when it was before.
\<close>

theorem reconcile_keeps_leaves:
  assumes "uniqueIds tree"
    and "n \<in> set (allNodes tree)"
    and "\<not> hasChildren n"
  shows "node_id n \<in> updateParentCheckStates tree S \<longleftrightarrow> node_id n \<in> S"
proof -
  from assms(2,3) have "node_id n \<in> set (getLeafNodeIds tree)"
    by (simp add: leafIds_allNodes)
  with assms(1) have "node_id n \<notin> set (parentIds tree)"
    by (simp add: uniqueIds_def leaf_not_parent)
  then show ?thesis by (rule update_frame)
qed

theorem reconcile_keeps_leaves_witness:
  "uniqueIds [rootAB] \<and> leafA \<in> set (allNodes [rootAB]) \<and> \<not> hasChildren leafA
     \<and> (node_id leafA \<in> updateParentCheckStates [rootAB] {''leafA'', ''root''}
          \<longleftrightarrow> node_id leafA \<in> {''leafA'', ''root''})"
proof -
  have u: "uniqueIds [rootAB]"
    by (simp add: uniqueIds_def rootAB_ids)
  have m: "leafA \<in> set (allNodes [rootAB])"
    by (simp add: allNodes_Cons rootAB_def childrenOrEmpty_def)
  have h: "\<not> hasChildren leafA"
    by (simp add: hasChildren_def leafA_def)
  show ?thesis
    by (intro conjI u m h reconcile_keeps_leaves [OF u m h])
qed

section \<open>Visible ids and the disabled map\<close>

lemma node_simps [simp]:
  "childrenOrEmpty (TreeNode i None d) = []"
  "childrenOrEmpty (TreeNode i (Some ch) d) = ch"
  "hasChildren (TreeNode i None d) = False"
  "hasChildren (TreeNode i (Some ch) d) = (ch \<noteq> [])"
  by (simp_all add: childrenOrEmpty_def hasChildren_def)

declare withAncestors.simps(2) [simp del] collectVisibleIds.simps(2) [simp del]

lemma withAncestors_Cons:
  "withAncestors anc (n # rest) =
     (n, anc) # withAncestors (anc @ [node_id n]) (childrenOrEmpty n) @ withAncestors anc rest"
  by (cases n) (auto simp: childrenOrEmpty_def withAncestors.simps split: option.splits)

lemma collectVisibleIds_Cons:
  "collectVisibleIds E (n # rest) (ids, m) =
     collectVisibleIds E rest
       (if node_id n \<in> E then
          collectVisibleIds E (childrenOrEmpty n)
            (ids @ [node_id n], if disabled n then m(node_id n \<mapsto> True) else m)
        else (ids @ [node_id n], if disabled n then m(node_id n \<mapsto> True) else m))"
  by (cases n) (auto simp: childrenOrEmpty_def collectVisibleIds.simps split: option.splits)

lemma allNodes_withAncestors: "map fst (withAncestors anc nodes) = allNodes nodes"
  by (induction nodes arbitrary: anc rule: forest_induct)
     (simp_all add: withAncestors_Cons allNodes_Cons)

lemma withAncestors_hidden:
  "a \<in> set anc \<Longrightarrow> a \<notin> E \<Longrightarrow> filter (ancestorsExpanded E) (withAncestors anc nodes) = []"
  by (induction nodes arbitrary: anc rule: forest_induct)
     (auto simp: withAncestors_Cons ancestorsExpanded_def list_all_iff)


lemma collectVisibleIds_filter:
  "list_all (\<lambda>a. a \<in> E) anc \<Longrightarrow>
     collectVisibleIds E nodes (ids, m) =
       (ids @ map (node_id \<circ> fst) (filter (ancestorsExpanded E) (withAncestors anc nodes)),
        fold (markDisabled \<circ> fst) (filter (ancestorsExpanded E) (withAncestors anc nodes)) m)"
proof (induction nodes arbitrary: anc ids m rule: forest_induct)
  case Nil
  show ?case by simp
next
  case (Cons n rest)
  have here: "ancestorsExpanded E (n, anc)"
    using Cons.prems by (simp add: ancestorsExpanded_def)
  show ?case
  proof (cases "node_id n \<in> E")
    case True
    with Cons.prems have "list_all (\<lambda>a. a \<in> E) (anc @ [node_id n])" by simp
    from Cons.IH(1) [OF this] Cons.IH(2) [OF Cons.prems] True here
    show ?thesis
      by (simp add: collectVisibleIds_Cons withAncestors_Cons markDisabled_def)
  next
    case False
    have "filter (ancestorsExpanded E) (withAncestors (anc @ [node_id n]) (childrenOrEmpty n)) = []"
      by (rule withAncestors_hidden [of "node_id n"]) (use False in simp_all)
    with Cons.IH(2) [OF Cons.prems] False here
    show ?thesis
      by (simp add: collectVisibleIds_Cons withAncestors_Cons markDisabled_def)
  qed
qed

lemma visibleNodeIds_visibleNodes:
  "fst (computeVisible nodes E) = map node_id (visibleNodes E nodes)"
  by (simp add: computeVisible_def visibleNodes_def collectVisibleIds_filter [of E "[]"])

lemma dom_fold_markDisabled:
  "dom (fold (markDisabled \<circ> fst) ps m) = dom m \<union> {node_id n | n. n \<in> fst ` set ps \<and> disabled n}"
  by (induction ps arbitrary: m) (auto simp: markDisabled_def)

lemma disabledNodesMap_visibleNodes:
  "dom (snd (computeVisible nodes E)) = {node_id n | n. n \<in> set (visibleNodes E nodes) \<and> disabled n}"
  by (simp add: computeVisible_def visibleNodes_def collectVisibleIds_filter [of E "[]"]
      dom_fold_markDisabled)

lemma roots_withAncestors: "r \<in> set nodes \<Longrightarrow> (r, anc) \<in> set (withAncestors anc nodes)"
  by (induction nodes) (auto simp: withAncestors_Cons)

text \<open>
  C4.  Visibility correctness.  The visible id sequence is the pre-order list of all nodes
  filtered by "every ancestor is expanded"; the unfiltered pre-order list of ids is what
  \<open>getAllDescendantIds\<close> returns for the roots.  So an id appears exactly when it is the id
  of a node all of whose ancestors are expanded, the order is depth-first pre-order, and
  every root appears.
\<close>

theorem visibility_correctness:
  "fst (computeVisible tree E)
       = map (node_id \<circ> fst) (filter (ancestorsExpanded E) (withAncestors [] tree))
     \<and> map (node_id \<circ> fst) (withAncestors [] tree) = getAllDescendantIds tree
     \<and> (i \<in> set (fst (computeVisible tree E)) \<longleftrightarrow>
          (\<exists>n anc. (n, anc) \<in> set (withAncestors [] tree) \<and> node_id n = i \<and> set anc \<subseteq> E))
     \<and> node_id ` set tree \<subseteq> set (fst (computeVisible tree E))"
proof (intro conjI)
  show 1: "fst (computeVisible tree E)
       = map (node_id \<circ> fst) (filter (ancestorsExpanded E) (withAncestors [] tree))"
    by (simp add: visibleNodeIds_visibleNodes visibleNodes_def)
  show "map (node_id \<circ> fst) (withAncestors [] tree) = getAllDescendantIds tree"
    using allNodes_withAncestors [of "[]" tree] by (simp add: ids_allNodes flip: map_map)
  show "i \<in> set (fst (computeVisible tree E)) \<longleftrightarrow>
          (\<exists>n anc. (n, anc) \<in> set (withAncestors [] tree) \<and> node_id n = i \<and> set anc \<subseteq> E)"
    unfolding 1 by (auto simp: ancestorsExpanded_def list_all_iff image_iff) 
  show "node_id ` set tree \<subseteq> set (fst (computeVisible tree E))"
  proof
    fix x assume "x \<in> node_id ` set tree"
    then obtain r where r: "r \<in> set tree" "x = node_id r" by blast
    then have "(r, []) \<in> set (filter (ancestorsExpanded E) (withAncestors [] tree))"
      by (simp add: roots_withAncestors ancestorsExpanded_def)
    with r(2) show "x \<in> set (fst (computeVisible tree E))"
      unfolding 1 by (force simp: image_iff)
  qed
qed

text \<open>
  C3, as the code has it.  The disabled map holds exactly the ids of the disabled nodes
  among the visible nodes: a node is recorded when the traversal visits it, and the
  traversal does not enter the children of a node that is not expanded.
\<close>

theorem disabledSet_visible_only:
  "dom (snd (computeVisible tree E)) = node_id ` {n \<in> set (visibleNodes E tree). disabled n}"
  by (auto simp: disabledNodesMap_visibleNodes)

text \<open>
  C3 as the specification states it fails on \<open>p{c}\<close> with \<open>c\<close> disabled and nothing
  expanded: \<open>c\<close> is a disabled node of the tree and is not a key of the disabled map.
\<close>

theorem disabledSet_full_tree_counterexample:
  "TreeNode ''c'' None True \<in> set (allNodes hiddenDisabledTree)
     \<and> disabled (TreeNode ''c'' None True)
     \<and> ''c'' \<notin> dom (snd (computeVisible hiddenDisabledTree {}))"
  by (simp add: hiddenDisabledTree_def allNodes_Cons computeVisible_def
      collectVisibleIds_Cons)


section \<open>Roving tabindex\<close>

lemma visibleNodes_distinct:
  assumes "uniqueIds tree"
  shows "distinct (map node_id (visibleNodes E tree))"
proof -
  have "distinct (map (node_id \<circ> fst) (withAncestors [] tree))"
    using assms allNodes_withAncestors [of "[]" tree]
    by (simp add: uniqueIds_def ids_allNodes flip: map_map)
  then have "distinct (map (node_id \<circ> fst) (filter (ancestorsExpanded E) (withAncestors [] tree)))"
    by (rule distinct_map_filter)
  then show ?thesis by (simp add: visibleNodes_def)
qed

lemma filter_key_find:
  "distinct (map f xs) \<Longrightarrow>
     filter (\<lambda>x. Q x \<and> f x = k) xs =
       (case find (\<lambda>x. f x = k) xs of None \<Rightarrow> [] | Some x \<Rightarrow> if Q x then [x] else [])"
proof (induction xs)
  case Nil
  show ?case by simp
next
  case (Cons x xs)
  show ?case
  proof (cases "f x = k")
    case True
    with Cons.prems have "\<forall>y \<in> set xs. f y \<noteq> k" by (auto simp: image_iff)
    then have "filter (\<lambda>x. Q x \<and> f x = k) xs = []" by (auto simp: filter_empty_conv)
    with True show ?thesis by simp
  next
    case False
    with Cons show ?thesis by simp
  qed
qed

lemma tabIndex_zero:
  "tabIndex c n = 0 \<longleftrightarrow>
     \<not> disabled n \<and>
       (lastFocusedNodeId c = Some (node_id n)
          \<or> \<not> truthy (lastFocusedNodeId c) \<and> isFirstNode c n)"
  by (simp add: tabIndex_def isDisabled_def isTabbable_def isLastFocused_def)

text \<open>
  The tab stops the code computes.  On a tree with unique ids, and with
  \<open>lastFocusedNodeId\<close> not the empty string, the visible nodes with \<open>tabIndex\<close> 0 are: the
  designated node alone when it is visible and not disabled, and no node otherwise.  The
  designated node is the last-focused node when one is recorded, else the first visible
  node.
\<close>

lemma tabIndex_targets:
  assumes "uniqueIds (prop_data props)"
    and "st_lastFocusedNodeId st \<noteq> Some []"
  shows "focusTargets (Tree props st) =
     (case designatedNode (Tree props st) of
        None \<Rightarrow> []
      | Some n \<Rightarrow> if disabled n then [] else [n])"
proof -
  define c where "c = Tree props st"
  define V where "V = visibleNodes (expandedNodes c) (data c)"
  have dV: "distinct (map node_id V)"
    unfolding V_def c_def using assms(1) by (simp add: Tree_fields visibleNodes_distinct)
  have vis: "visibleNodeIds c = map node_id V"
    unfolding V_def c_def by (simp add: Tree_fields visibleNodeIds_visibleNodes)
  have lf: "lastFocusedNodeId c \<noteq> Some []"
    unfolding c_def using assms(2) by (simp add: Tree_fields)
  show ?thesis
  proof (cases "lastFocusedNodeId c")
    case (Some f)
    with lf have "f \<noteq> []" by auto
    with Some have "\<And>n. tabIndex c n = 0 \<longleftrightarrow> \<not> disabled n \<and> node_id n = f"
      by (auto simp: tabIndex_zero truthy_def)
    then have "focusTargets c = filter (\<lambda>n. \<not> disabled n \<and> node_id n = f) V"
      by (simp add: focusTargets_def V_def)
    also have "\<dots> = (case find (\<lambda>n. node_id n = f) V of
                        None \<Rightarrow> [] | Some n \<Rightarrow> if \<not> disabled n then [n] else [])"
      by (rule filter_key_find [OF dV])
    finally show ?thesis
      using Some by (simp add: designatedNode_def V_def c_def split: option.splits)
  next
    case None
    show ?thesis
    proof (cases V)
      case Nil
      with None show ?thesis
        by (simp add: focusTargets_def designatedNode_def V_def [symmetric] c_def [symmetric])
    next
      case (Cons v vs)
      with None vis have "\<And>n. tabIndex c n = 0 \<longleftrightarrow> \<not> disabled n \<and> node_id n = node_id v"
        by (auto simp: tabIndex_zero truthy_def isFirstNode_def)
      then have "focusTargets c = filter (\<lambda>n. \<not> disabled n \<and> node_id n = node_id v) V"
        by (simp add: focusTargets_def V_def)
      also have "\<dots> = (case find (\<lambda>n. node_id n = node_id v) V of
                          None \<Rightarrow> [] | Some n \<Rightarrow> if \<not> disabled n then [n] else [])"
        by (rule filter_key_find [OF dV])
      also have "\<dots> = (if disabled v then [] else [v])"
        using Cons by simp
      finally show ?thesis
        using None Cons
        by (simp add: designatedNode_def V_def [symmetric] c_def [symmetric])
    qed
  qed
qed

lemma rootAB_visible: "visibleNodes {} [rootAB] = [rootAB]"
  by (simp add: visibleNodes_def withAncestors_Cons ancestorsExpanded_def rootAB_shape
      withAncestors_hidden [of "''root''"])

lemma tabIndex_targets_rootAB:
  "uniqueIds (prop_data (bulkProps [rootAB] []))
     \<and> st_lastFocusedNodeId (idleState [rootAB]) \<noteq> Some []
     \<and> focusTargets (Tree (bulkProps [rootAB] []) (idleState [rootAB])) = [rootAB]"
proof -
  have u: "uniqueIds (prop_data (bulkProps [rootAB] []))"
    by (simp add: bulkProps_def uniqueIds_def rootAB_ids)
  have l: "st_lastFocusedNodeId (idleState [rootAB]) \<noteq> Some []"
    by (simp add: idleState_def)
  have d: "designatedNode (Tree (bulkProps [rootAB] []) (idleState [rootAB])) = Some rootAB"
    by (simp add: designatedNode_def Tree_fields bulkProps_def idleState_def rootAB_visible)
  have "\<not> disabled rootAB" by (simp add: rootAB_def)
  with tabIndex_targets [OF u l] d
  have "focusTargets (Tree (bulkProps [rootAB] []) (idleState [rootAB])) = [rootAB]"
    by simp
  with u l show ?thesis by (intro conjI)
qed

lemma disabledFirst_visible:
  "visibleNodes {} disabledFirstTree = [TreeNode ''a'' None True, TreeNode ''b'' None False]"
  by (simp add: visibleNodes_def disabledFirstTree_def withAncestors_Cons ancestorsExpanded_def)

text \<open>
  C2.  Roving uniqueness asks for exactly one visible, non-disabled node with \<open>tabIndex\<close>
  0, the first visible non-disabled node when nothing has been focused.  On the roots
  \<open>a\<close> (disabled), \<open>b\<close> before any focus the code gives none: \<open>b\<close> is the first visible
  node that is not disabled, and no visible node has \<open>tabIndex\<close> 0.
\<close>

theorem roving_no_target_first_disabled:
  "lastFocusedNodeId (bulkContext disabledFirstTree []) = None
     \<and> firstEnabledVisible (bulkContext disabledFirstTree []) = Some (TreeNode ''b'' None False)
     \<and> focusTargets (bulkContext disabledFirstTree []) = []"
  by (simp add: firstEnabledVisible_def focusTargets_def bulkContext_fields
      disabledFirst_visible tabIndex_def isDisabled_def isTabbable_def isLastFocused_def
      isFirstNode_def truthy_def bulkContext_def Tree_fields bulkProps_def idleState_def
      visibleNodeIds_visibleNodes)

text \<open>
  After a node whose id is the empty string received focus, \<open>!lastFocusedNodeId\<close> is
  true as well, and both that node and the first visible node have \<open>tabIndex\<close> 0.
\<close>

lemma emptyId_visible:
  "visibleNodes {} emptyIdTree = [TreeNode ''a'' None False, TreeNode [] None False]"
  by (simp add: visibleNodes_def emptyIdTree_def withAncestors_Cons ancestorsExpanded_def)

lemma roving_empty_id_two_targets:
  "focusTargets (Tree (bulkProps emptyIdTree []) (emptyIdFocused emptyIdTree))
     = [TreeNode ''a'' None False, TreeNode [] None False]"
  by (simp add: focusTargets_def Tree_fields bulkProps_def emptyIdFocused_def idleState_def
      emptyId_visible tabIndex_def isDisabled_def isTabbable_def isLastFocused_def
      isFirstNode_def truthy_def visibleNodeIds_visibleNodes)

section \<open>Keyboard navigation\<close>

declare scanForward.simps [simp del] scanBackward.simps [simp del]

lemma indexOf_bounds: "- 1 \<le> indexOf xs x \<and> indexOf xs x < int (length xs)"
  by (induction xs) auto

lemma scanForward_find:
  "0 \<le> i \<Longrightarrow> scanForward c i = focusFirst c (drop (nat i) (visibleNodeIds c))"
proof (induction c i rule: scanForward.induct)
  case (1 c i)
  show ?case
  proof (cases "i < int (length (visibleNodeIds c))")
    case False
    then show ?thesis
      by (subst scanForward.simps) (simp add: focusFirst_def)
  next
    case True
    with "1.prems" have lt: "nat i < length (visibleNodeIds c)" by linarith
    have nxt: "nat (i + 1) = Suc (nat i)" using "1.prems" by linarith
    have dr: "drop (nat i) (visibleNodeIds c)
        = visibleNodeIds c ! nat i # drop (nat (i + 1)) (visibleNodeIds c)"
      unfolding nxt by (rule Cons_nth_drop_Suc [OF lt, symmetric])
    have ge: "0 \<le> i + 1" using "1.prems" by simp
    have nneg: "\<not> i < 0" using "1.prems" by simp
    show ?thesis
    proof (cases "disabledNodesMap c (visibleNodeIds c ! nat i) \<noteq> None")
      case dis: True
      from "1.IH"(2) [OF True nneg dis ge] True nneg dis show ?thesis
        by (subst scanForward.simps) (auto simp: dr focusFirst_def eligible_def)
    next
      case en: False
      show ?thesis
      proof (cases "visibleNodeIds c ! nat i \<in> focusableNodes c")
        case reg: True
        with True nneg en show ?thesis
          by (subst scanForward.simps) (simp add: dr focusFirst_def eligible_def)
      next
        case unreg: False
        from "1.IH"(3) [OF True nneg en unreg ge] True nneg en unreg show ?thesis
          by (subst scanForward.simps) (simp add: dr focusFirst_def eligible_def)
      qed
    qed
  qed
qed

lemma scanBackward_find:
  "i < int (length (visibleNodeIds c)) \<Longrightarrow>
     scanBackward c i = focusFirst c (rev (take (nat (i + 1)) (visibleNodeIds c)))"
proof (induction c i rule: scanBackward.induct)
  case (1 c i)
  show ?case
  proof (cases "0 \<le> i")
    case False
    then show ?thesis
      by (subst scanBackward.simps) (simp add: focusFirst_def)
  next
    case True
    with "1.prems" have lt: "nat i < length (visibleNodeIds c)" by linarith
    have nxt: "nat (i + 1) = Suc (nat i)" "nat (i - 1 + 1) = nat i" using True by linarith+
    have tk: "rev (take (nat (i + 1)) (visibleNodeIds c))
        = visibleNodeIds c ! nat i # rev (take (nat (i - 1 + 1)) (visibleNodeIds c))"
      unfolding nxt by (simp add: take_Suc_conv_app_nth [OF lt])
    have inr: "\<not> int (length (visibleNodeIds c)) \<le> i" using "1.prems" by simp
    have lt': "i - 1 < int (length (visibleNodeIds c))" using "1.prems" by simp
    show ?thesis
    proof (cases "disabledNodesMap c (visibleNodeIds c ! nat i) \<noteq> None")
      case dis: True
      from "1.IH"(2) [OF True inr dis lt'] True inr dis show ?thesis
        by (subst scanBackward.simps) (auto simp: tk focusFirst_def eligible_def)
    next
      case en: False
      show ?thesis
      proof (cases "visibleNodeIds c ! nat i \<in> focusableNodes c")
        case reg: True
        with True inr en show ?thesis
          by (subst scanBackward.simps) (simp add: tk focusFirst_def eligible_def)
      next
        case unreg: False
        from "1.IH"(3) [OF True inr en unreg lt'] True inr en unreg show ?thesis
          by (subst scanBackward.simps) (simp add: tk focusFirst_def eligible_def)
      qed
    qed
  qed
qed

lemma navKey_cases:
  "key \<in> {''ArrowDown'', ''ArrowUp'', ''Home'', ''End''} \<Longrightarrow>
     key = ''ArrowDown'' \<or> key = ''ArrowUp'' \<or> key = ''Home'' \<or> key = ''End''"
  by blast

lemma handleKeyDown_nav:
  assumes "key \<in> {''ArrowDown'', ''ArrowUp'', ''Home'', ''End''}"
  shows "handleKeyDown c node key =
     (if disabled node then [] else focusFirst c (scanRange c node key))"
proof -
  let ?vis = "visibleNodeIds c"
  let ?ci = "indexOf ?vis (node_id node)"
  have b: "- 1 \<le> ?ci" "?ci < int (length ?vis)"
    using indexOf_bounds [of ?vis "node_id node"] by simp_all
  have down: "scanForward c (?ci + 1) = focusFirst c (drop (nat (?ci + 1)) ?vis)"
    by (rule scanForward_find) (use b in simp)
  have up: "scanBackward c (?ci - 1) = focusFirst c (rev (take (nat ?ci) ?vis))"
    using scanBackward_find [of "?ci - 1" c] b by simp
  have home: "scanForward c 0 = focusFirst c ?vis"
    using scanForward_find [of 0 c] by simp
  have "nat (int (length ?vis) - 1 + 1) = length ?vis" by simp
  then have end': "scanBackward c (int (length ?vis) - 1) = focusFirst c (rev ?vis)"
    using scanBackward_find [of "int (length ?vis) - 1" c] by simp
  from navKey_cases [OF assms] show ?thesis
  proof (elim disjE)
    assume "key = ''ArrowDown''"
    then show ?thesis by (simp add: handleKeyDown_def scanRange_def isDisabled_def down)
  next
    assume "key = ''ArrowUp''"
    then show ?thesis by (simp add: handleKeyDown_def scanRange_def isDisabled_def up)
  next
    assume "key = ''Home''"
    then show ?thesis by (simp add: handleKeyDown_def scanRange_def isDisabled_def home)
  next
    assume "key = ''End''"
    then show ?thesis by (simp add: handleKeyDown_def scanRange_def isDisabled_def end')
  qed
qed

lemma focusFirst_sound:
  "Focus x \<in> set (focusFirst c xs) \<Longrightarrow> x \<in> set xs \<and> disabledNodesMap c x = None"
proof -
  assume "Focus x \<in> set (focusFirst c xs)"
  then have "find (eligible c) xs = Some x"
    by (auto simp: focusFirst_def split: option.splits)
  then show ?thesis
    by (auto simp: find_Some_iff eligible_def)
qed

lemma focusFirst_shape:
  "focusFirst c xs = [] \<or> (\<exists>x. focusFirst c xs = [Focus x])"
  by (auto simp: focusFirst_def split: option.splits)

lemma focusFirst_none:
  "\<forall>x \<in> set xs. disabledNodesMap c x \<noteq> None \<Longrightarrow> focusFirst c xs = []"
  by (auto simp: focusFirst_def eligible_def find_None_iff split: option.splits)

text \<open>
  C7.  Disabled skip.  For \<open>ArrowDown\<close>, \<open>ArrowUp\<close>, \<open>Home\<close> and \<open>End\<close>, on any context and
  node: the handler focuses at most one id, an id it focuses lies in the scan range of the
  key and is not in the disabled map, and when every id of the scan range is in the
  disabled map the handler does nothing.
\<close>

theorem navigation_skips_disabled:
  assumes "key \<in> {''ArrowDown'', ''ArrowUp'', ''Home'', ''End''}"
  shows "(\<forall>x. Focus x \<in> set (handleKeyDown c node key) \<longrightarrow>
            x \<in> set (scanRange c node key) \<and> disabledNodesMap c x = None)
     \<and> (handleKeyDown c node key = [] \<or> (\<exists>x. handleKeyDown c node key = [Focus x]))
     \<and> ((\<forall>x \<in> set (scanRange c node key). disabledNodesMap c x \<noteq> None) \<longrightarrow>
            handleKeyDown c node key = [])"
proof (cases "disabled node")
  case True
  then have "handleKeyDown c node key = []"
    by (simp add: handleKeyDown_nav [OF assms])
  then show ?thesis by simp
next
  case False
  then have eq: "handleKeyDown c node key = focusFirst c (scanRange c node key)"
    by (simp add: handleKeyDown_nav [OF assms])
  show ?thesis
    unfolding eq
    using focusFirst_sound [of _ c "scanRange c node key"]
      focusFirst_shape [of c "scanRange c node key"]
      focusFirst_none [of "scanRange c node key" c]
    by blast
qed

lemma skipTree_computeVisible:
  "computeVisible skipTree E = ([''a'', ''leafC''], [''leafC'' \<mapsto> True])"
  by (simp add: computeVisible_def skipTree_def collectVisibleIds_Cons)

theorem navigation_skips_disabled_witness:
  "''ArrowDown'' \<in> {''ArrowDown'', ''ArrowUp'', ''Home'', ''End''}
     \<and> scanRange (bulkContext skipTree []) (TreeNode ''a'' None False) ''ArrowDown'' = [''leafC'']
     \<and> disabledNodesMap (bulkContext skipTree []) ''leafC'' = Some True
     \<and> handleKeyDown (bulkContext skipTree []) (TreeNode ''a'' None False) ''ArrowDown'' = []"
proof -
  let ?c = "bulkContext skipTree []" and ?a = "TreeNode ''a'' None False"
  have k: "''ArrowDown'' \<in> {''ArrowDown'', ''ArrowUp'', ''Home'', ''End''}" by simp
  have v: "visibleNodeIds ?c = [''a'', ''leafC'']"
    by (simp add: bulkContext_def Tree_fields bulkProps_def skipTree_computeVisible)
  have r: "scanRange ?c ?a ''ArrowDown'' = [''leafC'']"
    by (simp add: scanRange_def v)
  have d: "disabledNodesMap ?c ''leafC'' = Some True"
    by (simp add: bulkContext_def Tree_fields bulkProps_def skipTree_computeVisible)
  from navigation_skips_disabled [OF k, of ?c ?a] r d
  have "handleKeyDown ?c ?a ''ArrowDown'' = []" by simp
  with k r d show ?thesis by (intro conjI)
qed


section \<open>Activation in bulk-actions mode\<close>

lemma handleToggleNode_flip:
  "handleToggleNode E ctl cb i =
     [(if ctl \<and> cb then OnExpandedChange else SetInternalExpanded) (flipMember i E)]"
  by (simp add: handleToggleNode_def flipMember_def Let_def)








lemma noCallbackContext_fields:
  "enableBulkActions noCallbackContext" "checkedNodes noCallbackContext = Some {}"
  "\<not> onCheckedNodesChange noCallbackContext" "data noCallbackContext = [rootAB]"
  by (simp_all add: noCallbackContext_def Tree_fields bulkProps_def)


text \<open>
  The \<open>Space\<close> key is a different command in bulk-actions mode: it toggles the checked
  state of parents and leaves alike.
\<close>

lemma bulk_space_toggles_checked:
  "enableBulkActions c \<Longrightarrow> \<not> disabled node \<Longrightarrow>
     handleKeyDown c node '' '' = handleToggleChecked c node"
  by (simp add: handleKeyDown_def isDisabled_def)


section \<open>Missing inputs and unknown ids\<close>

lemma toggleChecked_unknown_node:
  assumes "node_id node \<notin> set (getAllDescendantIds (data c))"
    and "checkedNodes c = Some S" and "onCheckedNodesChange c"
  shows "\<exists>S'. handleToggleChecked c node = [OnCheckedNodesChange S']
            \<and> (node_id node \<in> S' \<longleftrightarrow> \<not> isChecked c node)"
proof -
  define D where "D = (if hasChildren node then getAllDescendantIds (childrenOrEmpty node) else [])"
  define X where "X = (if isChecked c node then (S - {node_id node}) - set D
                       else set D \<union> insert (node_id node) S)"
  have h: "handleToggleChecked c node
      = [OnCheckedNodesChange (updateParentCheckStates (data c) X)]"
    using assms(2,3)
    by (simp add: handleToggleChecked_def Let_def X_def D_def fold_insert_set fold_remove_set)
  have "node_id node \<notin> set (parentIds (data c))"
    using assms(1) parentIds_subset [of "data c"] by blast
  then have "node_id node \<in> updateParentCheckStates (data c) X \<longleftrightarrow> node_id node \<in> X"
    by (rule update_frame)
  also have "\<dots> \<longleftrightarrow> \<not> isChecked c node"
    by (simp add: X_def)
  finally show ?thesis using h by blast
qed

text \<open>
  C8, as the code has it.  A checkbox operation whose checked set or callback is not
  supplied returns without any effect and without an error; an item operation is an
  error exactly when there is no \<open>TreeContext\<close>, the error \<open>useTreeContext\<close> throws.
  Toggling an id that is not in the tree is not an error either, and it is not a no-op:
  \<open>handleToggleNode\<close> flips the membership of whatever id it is given in the expanded set
  it commits, and \<open>handleToggleChecked\<close> on a node that is not in the tree commits a checked
  set in which the membership of that node's id is flipped.
\<close>

theorem checkbox_guard_is_silent:
  "(checkedNodes c = None \<or> \<not> onCheckedNodesChange c \<longrightarrow>
       itemToggleChecked (Some c) node = Inr []
     \<and> itemLocalCheckboxChange (Some c) node newValues = Inr [])
   \<and> isl (itemToggleChecked ctxt node) = (ctxt = None)
   \<and> isl (itemLocalCheckboxChange ctxt node newValues) = (ctxt = None)
   \<and> useTreeContext None = Inl ''Tree components must be used within a Tree''
   \<and> handleToggleNode E ctl cb nodeId
       = [(if ctl \<and> cb then OnExpandedChange else SetInternalExpanded) (flipMember nodeId E)]
   \<and> (node_id node \<notin> set (getAllDescendantIds (data c))
        \<and> checkedNodes c = Some S \<and> onCheckedNodesChange c \<longrightarrow>
        (\<exists>S'. itemToggleChecked (Some c) node = Inr [OnCheckedNodesChange S']
             \<and> (node_id node \<in> S' \<longleftrightarrow> \<not> isChecked c node)))"
proof (intro conjI impI)
  assume g: "checkedNodes c = None \<or> \<not> onCheckedNodesChange c"
  then show "itemToggleChecked (Some c) node = Inr []"
    by (auto simp: itemToggleChecked_def useTreeContext_def handleToggleChecked_def
        split: option.splits)
  from g show "itemLocalCheckboxChange (Some c) node newValues = Inr []"
    by (auto simp: itemLocalCheckboxChange_def useTreeContext_def handleLocalCheckboxChange_def
        split: option.splits)
next
  show "isl (itemToggleChecked ctxt node) = (ctxt = None)"
    by (cases ctxt) (simp_all add: itemToggleChecked_def useTreeContext_def)
  show "isl (itemLocalCheckboxChange ctxt node newValues) = (ctxt = None)"
    by (cases ctxt) (simp_all add: itemLocalCheckboxChange_def useTreeContext_def)
  show "useTreeContext None = Inl ''Tree components must be used within a Tree''"
    by (simp add: useTreeContext_def)
  show "handleToggleNode E ctl cb nodeId
       = [(if ctl \<and> cb then OnExpandedChange else SetInternalExpanded) (flipMember nodeId E)]"
    by (rule handleToggleNode_flip)
next
  assume u: "node_id node \<notin> set (getAllDescendantIds (data c))
      \<and> checkedNodes c = Some S \<and> onCheckedNodesChange c"
  then obtain S' where "handleToggleChecked c node = [OnCheckedNodesChange S']"
    and "node_id node \<in> S' \<longleftrightarrow> \<not> isChecked c node"
    using toggleChecked_unknown_node [of node c S] by blast
  then show "\<exists>S'. itemToggleChecked (Some c) node = Inr [OnCheckedNodesChange S']
      \<and> (node_id node \<in> S' \<longleftrightarrow> \<not> isChecked c node)"
    by (auto simp: itemToggleChecked_def useTreeContext_def)
qed

lemma ghost_shape:
  "node_id ghost = ''ghost''" "\<not> hasChildren ghost" "\<not> disabled ghost"
  "node_id ghost \<notin> set (getAllDescendantIds (data (bulkContext [rootAB] [])))"
  "\<not> isChecked (bulkContext [rootAB] []) ghost"
  by (simp_all add: ghost_def bulkContext_fields rootAB_ids isChecked_def)

theorem checkbox_guard_is_silent_witness:
  "\<not> onCheckedNodesChange noCallbackContext
     \<and> itemToggleChecked (Some noCallbackContext) rootAB = Inr []
     \<and> node_id ghost \<notin> set (getAllDescendantIds (data (bulkContext [rootAB] [])))
     \<and> checkedNodes (bulkContext [rootAB] []) = Some {}
     \<and> onCheckedNodesChange (bulkContext [rootAB] [])
     \<and> (\<exists>S'. itemToggleChecked (Some (bulkContext [rootAB] [])) ghost
                 = Inr [OnCheckedNodesChange S']
             \<and> ''ghost'' \<in> S')"
proof -
  let ?c = "bulkContext [rootAB] []"
  have g: "\<not> onCheckedNodesChange noCallbackContext"
    by (rule noCallbackContext_fields)
  have s: "checkedNodes ?c = Some {}" and o: "onCheckedNodesChange ?c"
    by (simp_all add: bulkContext_fields)
  note t1 = checkbox_guard_is_silent [of noCallbackContext rootAB "[]" None "{}" False False "[]" "{}"]
  from t1 g have 1: "itemToggleChecked (Some noCallbackContext) rootAB = Inr []" by blast
  note t2 = checkbox_guard_is_silent [of ?c ghost "[]" None "{}" False False "[]" "{}"]
  from t2 ghost_shape(4) s o
  have "\<exists>S'. itemToggleChecked (Some ?c) ghost = Inr [OnCheckedNodesChange S']
          \<and> (node_id ghost \<in> S' \<longleftrightarrow> \<not> isChecked ?c ghost)" by blast
  then have 2: "\<exists>S'. itemToggleChecked (Some ?c) ghost = Inr [OnCheckedNodesChange S']
          \<and> ''ghost'' \<in> S'"
    by (simp add: ghost_shape)
  from g 1 ghost_shape(4) s o 2 show ?thesis by (intro conjI)
qed

text \<open>
  C8 as the specification states it fails twice.  On a context with a checked set and no
  \<open>onCheckedNodesChange\<close> both checkbox operations return normally, with no effect and no
  error.  On \<open>root{leafA, leafB}\<close> with nothing expanded and nothing checked, toggling the
  expansion of the id \<open>ghost\<close>, which is not in the tree, stores \<open>{ghost}\<close>, and toggling the
  checked state of a node \<open>ghost\<close> commits \<open>{ghost}\<close>: neither is a no-op.
\<close>

theorem checkbox_guard_counterexample:
  "checkedNodes noCallbackContext = Some {}
     \<and> \<not> onCheckedNodesChange noCallbackContext
     \<and> itemToggleChecked (Some noCallbackContext) leafA = Inr []
     \<and> itemLocalCheckboxChange (Some noCallbackContext) rootAB [''leafA''] = Inr []
     \<and> node_id ghost \<notin> set (getAllDescendantIds (data (bulkContext [rootAB] [])))
     \<and> expandedNodes (bulkContext [rootAB] []) = {}
     \<and> onToggleNode (bulkContext [rootAB] []) (node_id ghost) = [SetInternalExpanded {''ghost''}]
     \<and> checkedNodes (bulkContext [rootAB] []) = Some {}
     \<and> itemToggleChecked (Some (bulkContext [rootAB] [])) ghost
         = Inr [OnCheckedNodesChange {''ghost''}]"
proof -
  let ?c = "bulkContext [rootAB] []"
  have 1: "itemToggleChecked (Some noCallbackContext) leafA = Inr []"
    by (simp add: itemToggleChecked_def useTreeContext_def handleToggleChecked_def
        noCallbackContext_fields)
  have 2: "itemLocalCheckboxChange (Some noCallbackContext) rootAB [''leafA''] = Inr []"
    by (simp add: itemLocalCheckboxChange_def useTreeContext_def handleLocalCheckboxChange_def
        noCallbackContext_fields)
  have e: "expandedNodes ?c = {}" and s: "checkedNodes ?c = Some {}"
    by (simp_all add: bulkContext_fields)
  have 3: "onToggleNode ?c (node_id ghost) = [SetInternalExpanded {''ghost''}]"
    by (simp add: bulkContext_def Tree_fields bulkProps_def idleState_def handleToggleNode_flip
        flipMember_def ghost_shape)
  have "handleToggleChecked ?c ghost = [OnCheckedNodesChange {''ghost''}]"
    by (simp add: handleToggleChecked_def bulkContext_fields ghost_shape rootAB_update)
  then have 4: "itemToggleChecked (Some ?c) ghost = Inr [OnCheckedNodesChange {''ghost''}]"
    by (simp add: itemToggleChecked_def useTreeContext_def)
  from noCallbackContext_fields(2,3) 1 2 ghost_shape(4) e 3 s 4 show ?thesis by (intro conjI)
qed


section \<open>The two propagation policies\<close>

lemma handleLocalCheckboxChange_commit:
  assumes "checkedNodes c = Some S" "onCheckedNodesChange c"
  shows "handleLocalCheckboxChange c node newValues =
     [OnCheckedNodesChange
        (updateParentCheckStates (data c)
           (set newValues \<union>
              (S - set (if hasChildren node then getAllDescendantIds (childrenOrEmpty node)
                        else []))))]"
  using assms
  by (simp add: handleLocalCheckboxChange_def Let_def fold_insert_set fold_remove_set)

lemma handleLocalCheckboxChange_local_commit:
  assumes "checkedNodes c = Some S" "onCheckedNodesChange c"
  shows "handleLocalCheckboxChange_local c node newValues =
     [OnCheckedNodesChange
        (if length newValues
              = length (if hasChildren node then getLeafNodeIds (childrenOrEmpty node) else [])
         then insert (node_id node)
                (set newValues \<union>
                   (S - set (if hasChildren node then getAllDescendantIds (childrenOrEmpty node)
                             else [])))
         else set newValues \<union>
                (S - set (if hasChildren node then getAllDescendantIds (childrenOrEmpty node)
                          else [])) - {node_id node})]"
  using assms
  by (simp add: handleLocalCheckboxChange_local_def Let_def fold_insert_set fold_remove_set)

lemma nestedRoot_shape:
  "node_id nestedRoot = ''root''"
  "(if hasChildren nestedRoot then getAllDescendantIds (childrenOrEmpty nestedRoot) else [])
     = [''mid'', ''x'', ''y'', ''z'']"
  "(if hasChildren nestedRoot then getLeafNodeIds (childrenOrEmpty nestedRoot) else [])
     = [''x'', ''y'', ''z'']"
  by (simp_all add: nestedRoot_def getAllDescendantIds_Cons getLeafNodeIds_Cons)

lemma nestedRoot_update:
  "updateParentCheckStates [nestedRoot] {''x'', ''y'', ''z''}
     = {''root'', ''mid'', ''x'', ''y'', ''z''}"
  by (simp add: updateParentCheckStates_Cons nestedRoot_def getLeafNodeIds_Cons)

lemma nestedRoot_currentSet:
  "set [''x'', ''y'', ''z''] \<union> (set [''x''] - set [''mid'', ''x'', ''y'', ''z''])
     = {''x'', ''y'', ''z''}"
  by auto

text \<open>
  C5.  On \<open>root{mid{x, y}, z}\<close> with \<open>x\<close> checked, the checkbox group of \<open>root\<close> reporting
  \<open>x\<close>, \<open>y\<close>, \<open>z\<close>: the global-reconciliation handler commits a set that contains \<open>mid\<close>,
  the local handler commits a set that does not.
\<close>

theorem policies_differ:
  "nestedRoot \<in> set (allNodes (data (bulkContext [nestedRoot] [''x''])))
     \<and> handleLocalCheckboxChange (bulkContext [nestedRoot] [''x'']) nestedRoot [''x'', ''y'', ''z'']
         = [OnCheckedNodesChange {''root'', ''mid'', ''x'', ''y'', ''z''}]
     \<and> handleLocalCheckboxChange_local (bulkContext [nestedRoot] [''x'']) nestedRoot
           [''x'', ''y'', ''z'']
         = [OnCheckedNodesChange {''root'', ''x'', ''y'', ''z''}]
     \<and> {''root'', ''mid'', ''x'', ''y'', ''z''} \<noteq> {''root'', ''x'', ''y'', ''z''}"
proof (intro conjI)
  let ?c = "bulkContext [nestedRoot] [''x'']"
  have s: "checkedNodes ?c = Some (set [''x''])" and o: "onCheckedNodesChange ?c"
    and d: "data ?c = [nestedRoot]"
    by (simp_all add: bulkContext_fields)
  show "nestedRoot \<in> set (allNodes (data ?c))"
    by (simp add: d allNodes_Cons)
  show "handleLocalCheckboxChange ?c nestedRoot [''x'', ''y'', ''z'']
         = [OnCheckedNodesChange {''root'', ''mid'', ''x'', ''y'', ''z''}]"
    by (simp only: handleLocalCheckboxChange_commit [OF s o] d nestedRoot_shape
        nestedRoot_currentSet nestedRoot_update)
  have "handleLocalCheckboxChange_local ?c nestedRoot [''x'', ''y'', ''z'']
         = [OnCheckedNodesChange (insert ''root'' {''x'', ''y'', ''z''})]"
    by (simp only: handleLocalCheckboxChange_local_commit [OF s o] nestedRoot_shape
        nestedRoot_currentSet) simp
  then show "handleLocalCheckboxChange_local ?c nestedRoot [''x'', ''y'', ''z'']
         = [OnCheckedNodesChange {''root'', ''x'', ''y'', ''z''}]"
    by simp
  have "''mid'' \<in> {''root'', ''mid'', ''x'', ''y'', ''z''}" by simp
  moreover have "''mid'' \<notin> {''root'', ''x'', ''y'', ''z''}" by simp
  ultimately show "{''root'', ''mid'', ''x'', ''y'', ''z''} \<noteq> {''root'', ''x'', ''y'', ''z''}"
    by metis
qed

end
